theory Spec2Isabelle
  imports Main "HOL-Library.Word"
begin

section \<open>Types and the stream type converter\<close>

text \<open>
  The types the pass inspects. \<open>IntegerType w s\<close> is an integer type of width \<open>w\<close>;
  the builder's \<open>getI64Type()\<close> and \<open>getI1Type()\<close> are the signless ones.
\<close>

datatype signedness = Signless | Signed | Unsigned

datatype mtype =
    IntegerType nat signedness
  | FloatType nat
  | IndexType
  | NoneType
  | TupleType "mtype list"
  | StreamType mtype

definition getI64Type :: mtype where
  "getI64Type = IntegerType 64 Signless"

definition getI1Type :: mtype where
  "getI1Type = IntegerType 1 Signless"

fun isa_IntegerType :: "mtype \<Rightarrow> bool" where
  "isa_IntegerType (IntegerType w s) = True"
| "isa_IntegerType t = False"

fun isa_StreamType :: "mtype \<Rightarrow> bool" where
  "isa_StreamType (StreamType t) = True"
| "isa_StreamType t = False"

text \<open>
  \<open>StreamTypeConverter\<close>: a stream of \<open>T\<close> becomes the pair of a tuple \<open>(T, i1)\<close> and a
  control token; every other type is kept (the identity conversion registered first is
  the fallback).
\<close>

fun convertType :: "mtype \<Rightarrow> mtype list" where
  "convertType (StreamType elementType) = [TupleType [elementType, getI1Type], NoneType]"
| "convertType t = [t]"

definition convertTypes :: "mtype list \<Rightarrow> mtype list" where
  "convertTypes ts = concat (map convertType ts)"

section \<open>Outcome of a conversion pattern\<close>

text \<open>
  A pattern returns \<open>failure()\<close>, or stops the process on a failed \<open>assert\<close>, or
  succeeds. Both ways of not succeeding are values of \<open>error\<close>.
\<close>

datatype error = AssertionFailed | Failure

text \<open>The signature of the unit that \<open>createFuncOp\<close> builds: argument and result types.\<close>

record func_signature =
  argTypes :: "mtype list"
  resTypes :: "mtype list"

text \<open>
  \<open>replaceWithInstance\<close> walks the result types of the replaced operator and asserts
  that each of them is a stream type, taking two results of the instance for each.
\<close>

definition replaceWithInstance :: "mtype list \<Rightarrow> 'a \<Rightarrow> error + 'a" where
  "replaceWithInstance oldResTypes instance =
     (if list_all isa_StreamType oldResTypes then Inr instance else Inl AssertionFailed)"

section \<open>The reduce pattern: checks and signature\<close>

text \<open>
  A reduce node as the pattern reads it: the element type of its stream operand, the type
  of its result and the \<open>initValue\<close> attribute.
\<close>

record reduce_op =
  reduce_inputElementType :: mtype
  reduce_resultType :: mtype
  reduce_initValue :: "64 word"

text \<open>
  What \<open>ReduceOpLowering::matchAndRewrite\<close> leaves behind when it succeeds: the
  signature of the unit and the initial contents of its two sequential buffers.
\<close>

record reduce_unit =
  reduce_signature :: func_signature
  buffer_initValues :: "64 word list"
  select_initValues :: "nat list"

definition ReduceOpLowering :: "reduce_op \<Rightarrow> error + reduce_unit" where
  "ReduceOpLowering op =
     (let resultTypes = convertType (reduce_resultType op) in
      case hd resultTypes of
        TupleType elts \<Rightarrow>
          (case elts of
             [] \<Rightarrow> Inl AssertionFailed
           | resultType # _ \<Rightarrow>
               if resultType \<noteq> getI64Type then Inl AssertionFailed
               else
                 let inputTypes = convertTypes [StreamType (reduce_inputElementType op)] @ [NoneType];
                     newTermOperandTypes = [TupleType [resultType, getI1Type], NoneType, NoneType];
                     unit = \<lparr> reduce_signature =
                                \<lparr> argTypes = inputTypes, resTypes = newTermOperandTypes \<rparr>,
                              buffer_initValues = [reduce_initValue op],
                              select_initValues = [1, 0] \<rparr>
                 in replaceWithInstance [reduce_resultType op] unit)
      | _ \<Rightarrow> Inl AssertionFailed)"

section \<open>The create pattern: checks and signature\<close>

datatype attribute = IntegerAttr int | FloatAttr | StringAttr string

fun isa_IntegerAttr :: "attribute \<Rightarrow> bool" where
  "isa_IntegerAttr (IntegerAttr i) = True"
| "isa_IntegerAttr a = False"

fun getInt :: "attribute \<Rightarrow> int" where
  "getInt (IntegerAttr i) = i"
| "getInt a = 0"

record create_op =
  create_values :: "attribute list"
  create_elementType :: mtype

text \<open>
  What \<open>CreateOpLowering::matchAndRewrite\<close> leaves behind: the signature, the depth of
  the data buffer and the initial contents of its buffers (\<open>fst\<close>, \<open>dataBuf\<close>, \<open>cnt\<close>).
\<close>

record create_unit =
  create_signature :: func_signature
  bufSize :: nat
  fst_initValues :: "bool list"
  dataBuf_initValues :: "int list"
  cnt_initValues :: "64 word list"

definition CreateOpLowering :: "create_op \<Rightarrow> error + create_unit" where
  "CreateOpLowering op =
     (let elementType = create_elementType op in
      if \<not> isa_IntegerType elementType then Inl AssertionFailed
      else if \<not> list_all isa_IntegerAttr (rev (create_values op)) then Inl AssertionFailed
      else
        let values = map getInt (rev (create_values op));
            termOperandTypes = [TupleType [elementType, getI1Type], NoneType];
            unit = \<lparr> create_signature = \<lparr> argTypes = [NoneType], resTypes = termOperandTypes \<rparr>,
                     bufSize = length (create_values op),
                     fst_initValues = [True],
                     dataBuf_initValues = values,
                     cnt_initValues = [0] \<rparr>
        in replaceWithInstance [StreamType elementType] unit)"

section \<open>Token channels and the handshake primitives\<close>

text \<open>
  The emitted circuit is a network of nodes that fire when their input tokens are there.
  A channel is the sequence of tokens that travel over one value, oldest first, and a node
  is a function from its input channels to its output channel. The nodes are primitives
  of the target representation; the patterns only instantiate and wire them, so their
  behaviour is not in this repository.
\<close>

type_synonym 'a chan = "'a list"

text \<open>
  Modelled from the spec: the constant source (section 6, ``constant-token source''),
  which emits its value once for every token of its control operand.
\<close>

definition ConstantOp :: "'a \<Rightarrow> 'c chan \<Rightarrow> 'a chan" where
  "ConstantOp v ctrl = map (\<lambda>_. v) ctrl"

text \<open>
  Modelled from the spec: the sequential buffer with initial values (sections 3 and 6).
  It is a queue: it first releases its initial values, the last one first, and then the
  tokens of its operand. The order of release is the one the source relies on (``The
  buffer works in reverse'' in create; ``First select the tupleOut, afterwards the one
  with the EOS signal'' for the initial values \<open>{1, 0}\<close> in reduce). The number of slots
  bounds how many tokens the buffer holds at a time, not their order.
\<close>

definition BufferOp :: "nat \<Rightarrow> 'a list \<Rightarrow> 'a chan \<Rightarrow> 'a chan" where
  "BufferOp slots initValues operand = rev initValues @ operand"

text \<open>
  Modelled from the spec: the two-way conditional branch (section 6), which pairs a
  condition token with a data token and sends the data token to its true or false result.
\<close>

definition ConditionalBranchOp_trueResult :: "bool chan \<Rightarrow> 'a chan \<Rightarrow> 'a chan" where
  "ConditionalBranchOp_trueResult cond data = map snd (filter fst (zip cond data))"

definition ConditionalBranchOp_falseResult :: "bool chan \<Rightarrow> 'a chan \<Rightarrow> 'a chan" where
  "ConditionalBranchOp_falseResult cond data = map snd (filter (\<lambda>t. \<not> fst t) (zip cond data))"

text \<open>Modelled from the spec: pack and unpack of a tuple token (section 6).\<close>

definition PackOp :: "'a chan \<Rightarrow> 'b chan \<Rightarrow> ('a \<times> 'b) chan" where
  "PackOp a b = zip a b"

definition UnpackOp_0 :: "('a \<times> 'b) chan \<Rightarrow> 'a chan" where
  "UnpackOp_0 t = map fst t"

definition UnpackOp_1 :: "('a \<times> 'b) chan \<Rightarrow> 'b chan" where
  "UnpackOp_1 t = map snd t"

text \<open>
  Modelled from the spec: the merge (section 6), which forwards whichever operand has a
  token. In the one place where the pass uses
  it, the tokens of the second operand are caused by earlier outputs of the merge itself,
  so the tokens of the first operand come first.
\<close>

definition MergeOp :: "'a chan \<Rightarrow> 'a chan \<Rightarrow> 'a chan" where
  "MergeOp a b = a @ b"

text \<open>
  Modelled from the spec: the multiplexer selected by an index (section 6). It takes one
  select token and then one token of the selected operand only;
  the tokens of the other operands stay where they are.
\<close>

fun MuxOp :: "nat chan \<Rightarrow> 'a chan list \<Rightarrow> 'a chan" where
  "MuxOp [] ins = []"
| "MuxOp (s # sel) ins =
     (if s < length ins then
        (case ins ! s of
           [] \<Rightarrow> []
         | x # xs \<Rightarrow> x # MuxOp sel (ins[s := xs]))
      else [])"

text \<open>
  Modelled from the spec: the join (section 6, a barrier), which fires once for every
  round in which all its operands have a token.
\<close>

fun JoinOp :: "unit chan list \<Rightarrow> unit chan" where
  "JoinOp [] = []"
| "JoinOp (c # cs) = replicate (fold min (map length cs) (length c)) ()"

text \<open>
  Modelled from the spec: the arithmetic nodes, which fire on one token of each operand;
  the addition is the one of 64-bit integers and wraps around.
\<close>

definition OrIOp :: "bool chan \<Rightarrow> bool chan \<Rightarrow> bool chan" where
  "OrIOp a b = map2 (\<or>) a b"

definition AddIOp :: "64 word chan \<Rightarrow> 64 word chan \<Rightarrow> 64 word chan" where
  "AddIOp a b = map2 (+) a b"

definition CmpIOp_eq :: "64 word chan \<Rightarrow> 64 word chan \<Rightarrow> bool chan" where
  "CmpIOp_eq a b = map2 (=) a b"

text \<open>
  Modelled from the spec: feedback (section 3, ``feedback is created by later rebinding
  the buffer's input operand to a value computed from its own output''). Such a cycle in
  the circuit is a recursive equation on a channel, with \<open>F\<close> the way once around the
  cycle. \<open>feedback n F\<close> is what the channel carries after \<open>n\<close> traversals of the cycle,
  starting from no token: a prefix of what it carries in the end.
\<close>

primrec feedback :: "nat \<Rightarrow> ('a chan \<Rightarrow> 'a chan) \<Rightarrow> 'a chan" where
  "feedback 0 F = []"
| "feedback (Suc n) F = F (feedback n F)"

section \<open>The circuit of create\<close>

text \<open>
  The region that \<open>CreateOpLowering::matchAndRewrite\<close> builds, value by value and under
  the source's names (\<open>fst\<close> is \<open>fst_buf\<close> here). Its only input is a control channel; \<open>n\<close>
  is the number of traversals of the two cycles (\<open>ctrl\<close> through \<open>ctrlBuf\<close>, \<open>cnt\<close> through
  \<open>newCnt\<close>) that are observed. A payload token is the integer value of a literal, the
  counter is a 64-bit integer. The results are the operands of the terminator.
\<close>

definition Create_unit :: "create_unit \<Rightarrow> nat \<Rightarrow> unit chan \<Rightarrow> (int \<times> bool) chan \<times> unit chan" where
  "Create_unit u n ctrlIn =
     (let falseVal = ConstantOp False ctrlIn;
          fst_buf = BufferOp 1 (fst_initValues u) falseVal;
          useCtrl_trueResult = ConditionalBranchOp_trueResult fst_buf ctrlIn;
          ctrl = feedback n (\<lambda>tmpCtrl.
                   let ctrlBuf = BufferOp 1 [] tmpCtrl
                   in MergeOp useCtrl_trueResult ctrlBuf);
          bubble = ConstantOp 0 ctrl;
          dataBuf = BufferOp (bufSize u) (dataBuf_initValues u) bubble;
          one = ConstantOp 1 ctrl;
          sizeConst = ConstantOp (of_nat (bufSize u)) ctrl;
          cnt = feedback n (\<lambda>cnt.
                  let newCnt = AddIOp cnt one
                  in BufferOp 1 (cnt_initValues u) newCnt);
          finished = CmpIOp_eq cnt sizeConst;
          tupleOut = PackOp dataBuf finished
      in (tupleOut, ctrl))"

section \<open>The circuit of reduce\<close>

text \<open>
  The body of a reduce is a region with the arguments \<open>(acc, data, ctrl)\<close>; once in
  dataflow form it computes its result when both \<open>acc\<close> and \<open>data\<close> have a token and hands
  its control token through.
\<close>

definition reduce_lambda ::
  "(64 word \<Rightarrow> 'd \<Rightarrow> 64 word) \<Rightarrow> 64 word chan \<Rightarrow> 'd chan \<Rightarrow> unit chan \<Rightarrow> 64 word chan \<times> unit chan" where
  "reduce_lambda f acc data ctrl = (map2 f acc data, ctrl)"

text \<open>
  The region that \<open>ReduceOpLowering::matchAndRewrite\<close> builds. The accumulator register
  \<open>buffer\<close> is on a cycle through \<open>dataBr\<close> and the body; \<open>n\<close> is the number of traversals
  of that cycle. The false result of \<open>dataBr\<close> and the terminator of the body are on the
  cycle and are named once more after it, for the values that leave the cycle.
\<close>

definition Reduce_unit ::
  "reduce_unit \<Rightarrow> (64 word \<Rightarrow> 'd \<Rightarrow> 64 word) \<Rightarrow> nat \<Rightarrow>
     ('d \<times> bool) chan \<Rightarrow> unit chan \<Rightarrow> unit chan \<Rightarrow>
     (64 word \<times> bool) chan \<times> unit chan \<times> unit chan" where
  "Reduce_unit u f n tupleIn streamCtrl initCtrl =
     (let data = UnpackOp_0 tupleIn;
          eos = UnpackOp_1 tupleIn;
          buffer = feedback n (\<lambda>buffer.
                     let dataBr_falseResult = ConditionalBranchOp_falseResult eos buffer;
                         oldTerm = reduce_lambda f dataBr_falseResult data streamCtrl
                     in BufferOp 1 (buffer_initValues u) (fst oldTerm));
          dataBr_trueResult = ConditionalBranchOp_trueResult eos buffer;
          dataBr_falseResult = ConditionalBranchOp_falseResult eos buffer;
          oldTerm = reduce_lambda f dataBr_falseResult data streamCtrl;
          eosBr_trueResult = ConditionalBranchOp_trueResult eos eos;
          ctrlBr_trueResult = ConditionalBranchOp_trueResult eos (snd oldTerm);
          eosFalse = ConstantOp False ctrlBr_trueResult;
          tupleOutVal = PackOp dataBr_trueResult eosFalse;
          tupleOutEOS = PackOp dataBr_trueResult eosBr_trueResult;
          bubble = ConstantOp 0 ctrlBr_trueResult;
          select = BufferOp 2 (select_initValues u) bubble;
          tupleOut = MuxOp select [tupleOutVal, tupleOutEOS];
          ctrlOut = MuxOp select [ctrlBr_trueResult, ctrlBr_trueResult]
      in (tupleOut, ctrlOut, initCtrl))"

text \<open>
  The successive contents of the accumulator register: the initial value, then the result
  of the body on each data token in turn.
\<close>

fun accumulated :: "('a \<Rightarrow> 'd \<Rightarrow> 'a) \<Rightarrow> 'a \<Rightarrow> 'd list \<Rightarrow> 'a list" where
  "accumulated f a [] = [a]"
| "accumulated f a (d # ds) = a # accumulated f (f a d) ds"

section \<open>The circuit of filter\<close>

text \<open>
  The body of a filter has the arguments \<open>(data, ctrl)\<close> and returns the predicate's value
  for every data token, with the control token handed through.
\<close>

definition filter_lambda :: "('d \<Rightarrow> bool) \<Rightarrow> 'd chan \<Rightarrow> unit chan \<Rightarrow> bool chan \<times> unit chan" where
  "filter_lambda p data ctrl = (map p data, ctrl)"

definition Filter_unit ::
  "('d \<Rightarrow> bool) \<Rightarrow> ('d \<times> bool) chan \<Rightarrow> unit chan \<Rightarrow> unit chan \<Rightarrow>
     ('d \<times> bool) chan \<times> unit chan \<times> unit chan" where
  "Filter_unit p tupleIn streamCtrl initCtrl =
     (let data = UnpackOp_0 tupleIn;
          eos = UnpackOp_1 tupleIn;
          oldTerm = filter_lambda p data streamCtrl;
          cond = fst oldTerm;
          ctrl = snd oldTerm;
          tupleOut = PackOp data eos;
          condOrEos = OrIOp cond eos;
          dataBr_trueResult = ConditionalBranchOp_trueResult condOrEos tupleOut;
          ctrlBr_trueResult = ConditionalBranchOp_trueResult condOrEos ctrl
      in (dataBr_trueResult, ctrlBr_trueResult, initCtrl))"

section \<open>The circuit of combine\<close>

text \<open>\<open>buildReduceTree\<close>: a left-leaning chain of a binary node over a non-empty list.\<close>

definition buildReduceTree :: "('v \<Rightarrow> 'v \<Rightarrow> 'v) \<Rightarrow> 'v list \<Rightarrow> error + 'v" where
  "buildReduceTree Op values =
     (case values of
        [] \<Rightarrow> Inl AssertionFailed
      | front # rest \<Rightarrow> Inr (foldl Op front rest))"

text \<open>The channel that the body of a combine receives as its control argument.\<close>

definition Combine_ctrlJoin :: "(('a \<times> bool) chan \<times> unit chan) list \<Rightarrow> unit chan" where
  "Combine_ctrlJoin ins = JoinOp (map snd ins)"

text \<open>
  The region that \<open>CombineOpLowering::matchAndRewrite\<close> builds. \<open>ins\<close> are the pairs of
  block arguments \<open>(tupleIn, streamCtrl)\<close>, one for each input stream. The body is any
  function from its argument channels (the data of each input, then the joined control)
  to the operands of its terminator (the results, then the control).
\<close>

definition Combine_unit ::
  "('a chan list \<Rightarrow> unit chan \<Rightarrow> 'b chan list \<times> unit chan) \<Rightarrow>
     (('a \<times> bool) chan \<times> unit chan) list \<Rightarrow> unit chan \<Rightarrow>
     error + (('b \<times> bool) chan \<times> unit chan) list \<times> unit chan" where
  "Combine_unit lambda ins initCtrl =
     (let blockInputs = map (\<lambda>arg. UnpackOp_0 (fst arg)) ins;
          eosInputs = map (\<lambda>arg. UnpackOp_1 (fst arg)) ins;
          ctrlJoin = Combine_ctrlJoin ins;
          oldTerm = lambda blockInputs ctrlJoin
      in case buildReduceTree OrIOp eosInputs of
           Inl e \<Rightarrow> Inl e
         | Inr eos \<Rightarrow>
             Inr (map (\<lambda>oldOp. (PackOp oldOp eos, snd oldTerm)) (fst oldTerm), initCtrl))"

section \<open>The symbol uniquer\<close>

text \<open>\<open>getBareOpName\<close>: the name of the operation with every dot replaced.\<close>

definition getBareOpName :: "string \<Rightarrow> string" where
  "getBareOpName name = map (\<lambda>c. if c = CHR ''.'' then CHR ''_'' else c) name"

text \<open>The decimal digits of an \<open>unsigned\<close>, as \<open>formatv\<close> prints them.\<close>

definition digit_char :: "nat \<Rightarrow> char" where
  "digit_char d = ''0123456789'' ! d"

function string_of_unsigned :: "nat \<Rightarrow> string" where
  "string_of_unsigned n =
     (if n < 10 then [digit_char n]
      else string_of_unsigned (n div 10) @ [digit_char (n mod 10)])"
  by pat_completeness auto
termination
  by (relation "measure id") auto

declare string_of_unsigned.simps [simp del]

text \<open>Reading a decimal string back, to tell the printed numbers apart.\<close>

definition digit_val :: "char \<Rightarrow> nat" where
  "digit_val c = of_char c - 48"

definition unsigned_of_string :: "string \<Rightarrow> nat" where
  "unsigned_of_string s = foldl (\<lambda>acc c. 10 * acc + digit_val c) 0 s"

definition formatv :: "string \<Rightarrow> nat \<Rightarrow> string" where
  "formatv opName cnt = opName @ ''_'' @ string_of_unsigned cnt"

text \<open>
  The names in the order in which the loop of \<open>getUniqueSymName\<close> tries them: the bare
  name, then the bare name with the suffixes \<open>_1\<close>, \<open>_2\<close>, and so on.
\<close>

definition candidate :: "string \<Rightarrow> nat \<Rightarrow> string" where
  "candidate opName k = (if k = 0 then opName else formatv opName k)"

text \<open>
  The loop of \<open>getUniqueSymName\<close>. \<open>cnt\<close> is an \<open>unsigned\<close>, so \<open>cnt++\<close> wraps at
  \<open>2 ^ 32\<close>; a loop that never finds a free name has the value \<open>None\<close>.
\<close>

partial_function (option) getUniqueSymName_loop ::
  "string set \<Rightarrow> string \<Rightarrow> string \<Rightarrow> nat \<Rightarrow> string option" where
  "getUniqueSymName_loop usedNames opName name cnt =
     (if name \<in> usedNames
      then getUniqueSymName_loop usedNames opName (formatv opName cnt) ((cnt + 1) mod 2 ^ 32)
      else Some name)"

definition addSymbol :: "string \<Rightarrow> string set \<Rightarrow> string set" where
  "addSymbol name usedNames = insert name usedNames"

text \<open>
  \<open>getUniqueSymName\<close> on the name of an operation, for a uniquer object that is alive:
  the name found, and the set of used names with that name added.

  The calls of a pass run are not of this kind. \<open>populateStreamToHandshakePatterns\<close>
  takes the uniquer by value, and the patterns keep a reference to that parameter; it is
  destroyed when the function returns, before any pattern runs. What a pattern's call
  then reads as used names is not determined by the program, so a pass run has no
  definition here.
\<close>

definition getUniqueSymName :: "string set \<Rightarrow> string \<Rightarrow> (string \<times> string set) option" where
  "getUniqueSymName usedNames op =
     (let opName = getBareOpName op in
      case getUniqueSymName_loop usedNames opName opName 1 of
        None \<Rightarrow> None
      | Some name \<Rightarrow> Some (name, addSymbol name usedNames))"

section \<open>Control-token resolution\<close>

text \<open>
  Values of the function being converted: a block argument (its owner and number) or a
  result of an operation (its defining operation and number). The body of the function
  obeys dominance, so the producers of a value form a finite tree.
\<close>

datatype opkind = InstanceOp | UnrealizedConversionCastOp | OtherOp string

datatype block = Block (block_argTypes: "mtype list")

datatype val =
    BlockArgument block nat
  | OpResult operation nat
and operation =
    Operation (op_kind: opkind) (op_operands: "val list") (op_resultTypes: "mtype list")

definition block_back :: "block \<Rightarrow> error + val" where
  "block_back blk =
     (case block_argTypes blk of
        [] \<Rightarrow> Inl AssertionFailed
      | _ \<Rightarrow> Inr (BlockArgument blk (length (block_argTypes blk) - 1)))"

definition getBlockCtrlSignal :: "block \<Rightarrow> error + val" where
  "getBlockCtrlSignal blk =
     (case block_back blk of
        Inl e \<Rightarrow> Inl e
      | Inr ctrl \<Rightarrow>
          if last (block_argTypes blk) = NoneType then Inr ctrl else Inl AssertionFailed)"

fun getCtrlSignal :: "val list \<Rightarrow> error + val" where
  "getCtrlSignal [] = Inl AssertionFailed"
| "getCtrlSignal (BlockArgument owner i # rest) = getBlockCtrlSignal owner"
| "getCtrlSignal (OpResult (Operation kind operands resultTypes) i # rest) =
     (if kind = InstanceOp then
        (if resultTypes = [] then Inl AssertionFailed
         else Inr (OpResult (Operation kind operands resultTypes) (length resultTypes - 1)))
      else getCtrlSignal operands)"

fun val_type :: "val \<Rightarrow> mtype option" where
  "val_type (BlockArgument owner i) =
     (if i < length (block_argTypes owner) then Some (block_argTypes owner ! i) else None)"
| "val_type (OpResult (Operation kind operands resultTypes) i) =
     (if i < length resultTypes then Some (resultTypes ! i) else None)"

text \<open>
  \<open>resolveStreamOperand\<close>: the operand must be of stream type and be the result of a
  conversion cast, whose inputs are appended.
\<close>

fun resolveStreamOperand :: "val \<Rightarrow> val list \<Rightarrow> error + val list" where
  "resolveStreamOperand (BlockArgument owner i) newOperands = Inl AssertionFailed"
| "resolveStreamOperand (OpResult (Operation kind operands resultTypes) i) newOperands =
     (case val_type (OpResult (Operation kind operands resultTypes) i) of
        Some (StreamType t) \<Rightarrow>
          if kind = UnrealizedConversionCastOp then Inr (newOperands @ operands)
          else Inl AssertionFailed
      | _ \<Rightarrow> Inl AssertionFailed)"

fun resolveStreamOperands :: "val list \<Rightarrow> val list \<Rightarrow> error + val list" where
  "resolveStreamOperands [] newOperands = Inr newOperands"
| "resolveStreamOperands (remappedOp # rest) newOperands =
     (case resolveStreamOperand remappedOp newOperands of
        Inl e \<Rightarrow> Inl e
      | Inr newOperands' \<Rightarrow> resolveStreamOperands rest newOperands')"

text \<open>
  \<open>resolveNewOperands\<close>, for an operation in block \<open>blk\<close> with the remapped operands
  given: the resolved stream operands, then one control value.
\<close>

definition resolveNewOperands :: "block \<Rightarrow> val list \<Rightarrow> error + val list" where
  "resolveNewOperands blk remappedOperands =
     (case resolveStreamOperands remappedOperands [] of
        Inl e \<Rightarrow> Inl e
      | Inr newOperands \<Rightarrow>
          if length remappedOperands = 0 then
            (case block_back blk of
               Inl e \<Rightarrow> Inl e
             | Inr ctrl \<Rightarrow> Inr (newOperands @ [ctrl]))
          else
            (case getCtrlSignal remappedOperands of
               Inl e \<Rightarrow> Inl e
             | Inr ctrl \<Rightarrow> Inr (newOperands @ [ctrl])))"

text \<open>
  The backward walk, stated on its own: one step goes from a result of an operation that
  is not an instance to the first operand of that operation.
\<close>

inductive first_operand_step :: "val \<Rightarrow> val \<Rightarrow> bool" where
  "kind \<noteq> InstanceOp \<Longrightarrow>
     first_operand_step (OpResult (Operation kind (fstOp # rest) resultTypes) i) fstOp"

section \<open>Materialisation of forks and sinks\<close>

text \<open>
  A unit, as far as this step is concerned: for every value of its body (block arguments
  and results of operations), the number of its consumers.
\<close>

type_synonym handshake_func = "nat list"

text \<open>
  Modelled from the spec: \<open>verifyAllValuesHasOneUse\<close>, a helper of the target
  representation's library (section 7: ``any value left with other than exactly one
  consumer'' is a failure).
\<close>

definition verifyAllValuesHasOneUse :: "handshake_func \<Rightarrow> bool" where
  "verifyAllValuesHasOneUse funcOp = list_all (\<lambda>numUses. numUses = 1) funcOp"

text \<open>
  Modelled from the spec: \<open>addForkOps\<close>, a helper of the target representation's library
  (section 4.6: ``for every value with more than one consumer insert an explicit
  duplication node''). The value is then consumed by the fork alone, and each of the
  fork's results by one of the former consumers.
\<close>

definition addForkOps :: "handshake_func \<Rightarrow> handshake_func option" where
  "addForkOps funcOp =
     Some (concat (map (\<lambda>numUses. if 1 < numUses then 1 # replicate numUses 1 else [numUses])
                       funcOp))"

text \<open>
  Modelled from the spec: \<open>addSinkOps\<close>, a helper of the target representation's library
  (section 4.6: ``for every value with zero consumers insert an explicit discard node'').
\<close>

definition addSinkOps :: "handshake_func \<Rightarrow> handshake_func option" where
  "addSinkOps funcOp = Some (map (\<lambda>numUses. if numUses = 0 then 1 else numUses) funcOp)"

text \<open>
  \<open>materializeForksAndSinks\<close> over the units of a module, with the three helpers it calls
  as parameters. A helper that fails has the value \<open>None\<close>, and so has the function when
  it returns \<open>failure()\<close>; otherwise the value is the module with its units rewritten.
\<close>

fun materializeForksAndSinks ::
  "(handshake_func \<Rightarrow> handshake_func option) \<Rightarrow> (handshake_func \<Rightarrow> handshake_func option) \<Rightarrow>
     (handshake_func \<Rightarrow> bool) \<Rightarrow> handshake_func list \<Rightarrow> handshake_func list option" where
  "materializeForksAndSinks forks sinks verify [] = Some []"
| "materializeForksAndSinks forks sinks verify (funcOp # rest) =
     (case forks funcOp of
        None \<Rightarrow> None
      | Some forked \<Rightarrow>
          (case sinks forked of
             None \<Rightarrow> None
           | Some sunk \<Rightarrow>
               if \<not> verify sunk then None
               else (case materializeForksAndSinks forks sinks verify rest of
                       None \<Rightarrow> None
                     | Some rest' \<Rightarrow> Some (sunk # rest'))))"

section \<open>The checks of the reduce and create patterns\<close>

lemma ReduceOpLowering_stream:
  "ReduceOpLowering \<lparr>reduce_inputElementType = E, reduce_resultType = StreamType T,
                      reduce_initValue = i\<rparr> =
     (if T \<noteq> getI64Type then Inl AssertionFailed
      else Inr \<lparr> reduce_signature =
                   \<lparr> argTypes = [TupleType [E, getI1Type], NoneType, NoneType],
                     resTypes = [TupleType [getI64Type, getI1Type], NoneType, NoneType] \<rparr>,
                 buffer_initValues = [i], select_initValues = [1, 0] \<rparr>)"
  by (simp add: ReduceOpLowering_def replaceWithInstance_def convertTypes_def)

lemma ReduceOpLowering_Inr_iff:
  "(\<exists>u. ReduceOpLowering op = Inr u) = (reduce_resultType op = StreamType getI64Type)"
proof (cases "reduce_resultType op")
  case (StreamType T)
  then show ?thesis
    by (simp add: ReduceOpLowering_def replaceWithInstance_def)
next
  case (TupleType ts)
  then show ?thesis
    by (simp add: ReduceOpLowering_def replaceWithInstance_def Let_def split: list.splits)
qed (simp_all add: ReduceOpLowering_def)

text \<open>
  Claim C6, as the code has it: the reduce pattern succeeds only on a reduce node whose
  result type is a stream of \<open>i64\<close>, and the unit it builds returns the converted stream
  (a tuple channel of value and end-of-stream flag, and a control channel) followed by
  the init control.
\<close>

theorem reduce_result_is_stream:
  assumes "ReduceOpLowering op = Inr u"
  shows "reduce_resultType op = StreamType getI64Type \<and>
         resTypes (reduce_signature u) = convertType (reduce_resultType op) @ [NoneType]"
proof -
  from assms have r: "reduce_resultType op = StreamType getI64Type"
    using ReduceOpLowering_Inr_iff [of op] by blast
  from assms r show ?thesis
    by (auto simp: ReduceOpLowering_def replaceWithInstance_def)
qed

theorem reduce_result_is_stream_witness:
  "ReduceOpLowering \<lparr>reduce_inputElementType = getI64Type,
                      reduce_resultType = StreamType getI64Type, reduce_initValue = 0\<rparr> =
     Inr \<lparr> reduce_signature =
             \<lparr> argTypes = [TupleType [getI64Type, getI1Type], NoneType, NoneType],
               resTypes = [TupleType [getI64Type, getI1Type], NoneType, NoneType] \<rparr>,
           buffer_initValues = [0], select_initValues = [1, 0] \<rparr> \<and>
   resTypes \<lparr> argTypes = [TupleType [getI64Type, getI1Type], NoneType, NoneType],
              resTypes = [TupleType [getI64Type, getI1Type], NoneType, NoneType] \<rparr> =
     convertType (StreamType getI64Type) @ [NoneType]"
proof -
  have h: "ReduceOpLowering \<lparr>reduce_inputElementType = getI64Type,
                              reduce_resultType = StreamType getI64Type, reduce_initValue = 0\<rparr> =
     Inr \<lparr> reduce_signature =
             \<lparr> argTypes = [TupleType [getI64Type, getI1Type], NoneType, NoneType],
               resTypes = [TupleType [getI64Type, getI1Type], NoneType, NoneType] \<rparr>,
           buffer_initValues = [0], select_initValues = [1, 0] \<rparr>"
    by (simp add: ReduceOpLowering_stream)
  show ?thesis
    using h reduce_result_is_stream [OF h] by simp
qed

text \<open>
  Claim C6, as the spec states it (a reduce node with a plain scalar result): on such a
  node the pattern stops at its first assertion.
\<close>

theorem reduce_scalar_result_counterexample:
  "ReduceOpLowering \<lparr>reduce_inputElementType = getI64Type, reduce_resultType = getI64Type,
                      reduce_initValue = 0\<rparr> = Inl AssertionFailed"
  by (simp add: ReduceOpLowering_def getI64Type_def)

text \<open>
  Claim C8: a reduce whose accumulator type is not \<open>i64\<close> and a create whose element type
  is not an integer type stop at an assertion; with an \<open>i64\<close> accumulator the reduce pattern
  succeeds, and with an integer element type (and integer literals) the create pattern
  succeeds.
\<close>

theorem precondition_failures:
  "(T \<noteq> getI64Type \<longrightarrow>
      ReduceOpLowering \<lparr>reduce_inputElementType = E, reduce_resultType = StreamType T,
                         reduce_initValue = i\<rparr> = Inl AssertionFailed) \<and>
   (T = getI64Type \<longrightarrow>
      (\<exists>u. ReduceOpLowering \<lparr>reduce_inputElementType = E, reduce_resultType = StreamType T,
                              reduce_initValue = i\<rparr> = Inr u)) \<and>
   (\<not> isa_IntegerType T' \<longrightarrow>
      CreateOpLowering \<lparr>create_values = vs, create_elementType = T'\<rparr> = Inl AssertionFailed) \<and>
   (isa_IntegerType T' \<longrightarrow> list_all isa_IntegerAttr vs \<longrightarrow>
      (\<exists>u. CreateOpLowering \<lparr>create_values = vs, create_elementType = T'\<rparr> = Inr u))"
  by (simp add: ReduceOpLowering_stream CreateOpLowering_def replaceWithInstance_def Let_def)

theorem precondition_failures_witness:
  "IntegerType 32 Signless \<noteq> getI64Type \<and>
   ReduceOpLowering \<lparr>reduce_inputElementType = getI64Type,
                      reduce_resultType = StreamType (IntegerType 32 Signless),
                      reduce_initValue = 0\<rparr> = Inl AssertionFailed \<and>
   (\<exists>u. ReduceOpLowering \<lparr>reduce_inputElementType = getI64Type,
                           reduce_resultType = StreamType getI64Type,
                           reduce_initValue = 0\<rparr> = Inr u) \<and>
   \<not> isa_IntegerType (FloatType 32) \<and>
   CreateOpLowering \<lparr>create_values = [IntegerAttr 5], create_elementType = FloatType 32\<rparr> =
     Inl AssertionFailed \<and>
   isa_IntegerType (IntegerType 8 Signless) \<and> list_all isa_IntegerAttr [IntegerAttr 5] \<and>
   (\<exists>u. CreateOpLowering \<lparr>create_values = [IntegerAttr 5],
                           create_elementType = IntegerType 8 Signless\<rparr> = Inr u)"
  using precondition_failures [of "IntegerType 32 Signless" getI64Type 0 "FloatType 32" "[IntegerAttr 5]"]
        precondition_failures [of getI64Type getI64Type 0 "IntegerType 8 Signless" "[IntegerAttr 5]"]
  by (simp add: getI64Type_def)

section \<open>Filter\<close>

lemma cond_br_true_tuple:
  "ConditionalBranchOp_trueResult (OrIOp (map p (map fst xs)) (map snd xs))
       (PackOp (map fst xs) (map snd xs)) =
     filter (\<lambda>t. p (fst t) \<or> snd t) xs"
  unfolding ConditionalBranchOp_trueResult_def OrIOp_def PackOp_def
  by (induction xs) auto

lemma cond_br_true_ctrl:
  "length cs = length xs \<Longrightarrow>
   ConditionalBranchOp_trueResult (OrIOp (map p (map fst xs)) (map snd xs)) cs =
     map (\<lambda>t. ()) (filter (\<lambda>t. p (fst t) \<or> snd t) xs)"
  unfolding ConditionalBranchOp_trueResult_def OrIOp_def
  by (induction cs xs rule: list_induct2) auto

lemma Filter_unit_eq:
  assumes "length streamCtrl = length tupleIn"
  shows "Filter_unit p tupleIn streamCtrl initCtrl =
           (filter (\<lambda>t. p (fst t) \<or> snd t) tupleIn,
            map (\<lambda>t. ()) (filter (\<lambda>t. p (fst t) \<or> snd t) tupleIn), initCtrl)"
  using assms
  by (simp add: Filter_unit_def filter_lambda_def UnpackOp_0_def UnpackOp_1_def Let_def
      cond_br_true_tuple cond_br_true_ctrl del: map_map)

text \<open>
  Claim C4: with one control token for every input activation, an activation \<open>(d, e)\<close>
  adds its tuple to the payload output and one token to the control output when
  \<open>p d \<or> e\<close> holds, and adds nothing to either otherwise. So the payload output is the
  input restricted to the activations with \<open>p d \<or> e\<close>, the control output has one token
  for each of them, and a stream whose only end-of-stream activation is its last one
  comes out as its elements that satisfy \<open>p\<close> followed by that last activation.
\<close>

theorem filter_gating:
  assumes "length streamCtrl = length tupleIn"
  shows "Filter_unit p (tupleIn @ [(d, e)]) (streamCtrl @ [()]) initCtrl =
           (case Filter_unit p tupleIn streamCtrl initCtrl of
              (payload, ctrl, init) \<Rightarrow>
                if p d \<or> e then (payload @ [(d, e)], ctrl @ [()], init)
                else (payload, ctrl, init)) \<and>
         Filter_unit p tupleIn streamCtrl initCtrl =
           (filter (\<lambda>t. p (fst t) \<or> snd t) tupleIn,
            map (\<lambda>t. ()) (filter (\<lambda>t. p (fst t) \<or> snd t) tupleIn), initCtrl) \<and>
         ((\<forall>t \<in> set tupleIn. \<not> snd t) \<longrightarrow>
            fst (Filter_unit p (tupleIn @ [(d, True)]) (streamCtrl @ [()]) initCtrl) =
              filter (\<lambda>t. p (fst t)) tupleIn @ [(d, True)])"
proof -
  have l: "length (streamCtrl @ [()]) = length (tupleIn @ [(d, e)])" for e
    using assms by simp
  have "(\<forall>t \<in> set tupleIn. \<not> snd t) \<Longrightarrow>
          filter (\<lambda>t. p (fst t) \<or> snd t) tupleIn = filter (\<lambda>t. p (fst t)) tupleIn"
    by (rule filter_cong) auto
  then show ?thesis
    by (simp add: Filter_unit_eq [OF assms] Filter_unit_eq [OF l])
qed

theorem filter_gating_witness:
  "length [(), ()] = length [(1 :: int, False), (5, False)] \<and>
   \<not> snd (1 :: int, False) \<and> \<not> snd (5 :: int, False) \<and>
   Filter_unit (\<lambda>x. 2 < x) ([(1 :: int, False), (5, False)] @ [(0, True)]) ([(), ()] @ [()]) [()] =
     ([(5, False), (0, True)], [(), ()], [()]) \<and>
   Filter_unit (\<lambda>x. 2 < x) [(1 :: int, False), (5, False)] [(), ()] [()] =
     ([(5, False)], [()], [()]) \<and>
   fst (Filter_unit (\<lambda>x. 2 < x) ([(1 :: int, False), (5, False)] @ [(0, True)]) ([(), ()] @ [()]) [()]) =
     [(5, False), (0, True)]"
  using filter_gating [of "[(), ()]" "[(1 :: int, False), (5, False)]" "\<lambda>x. 2 < x" 0 True "[()]"]
  by simp

section \<open>Combine\<close>

lemma fold_min_less: "(a < fold min ls (l :: nat)) = (a < l \<and> (\<forall>x \<in> set ls. a < x))"
  by (induction ls arbitrary: l) auto

lemma JoinOp_length:
  "cs \<noteq> [] \<Longrightarrow> (a < length (JoinOp cs)) = (\<forall>c \<in> set cs. a < length c)"
  by (cases cs) (auto simp: fold_min_less)

lemma foldl_OrIOp_nth:
  "a < length (foldl OrIOp e es) \<Longrightarrow>
     foldl OrIOp e es ! a = (e ! a \<or> (\<exists>x \<in> set es. x ! a)) \<and>
     a < length e \<and> (\<forall>x \<in> set es. a < length x)"
proof (induction es arbitrary: e)
  case Nil
  then show ?case by simp
next
  case (Cons x xs)
  from Cons.prems have "a < length (foldl OrIOp (OrIOp e x) xs)" by simp
  from Cons.IH [OF this] show ?case
    by (auto simp: OrIOp_def)
qed

text \<open>
  Claim C7: for a combine over a non-empty list of input streams, whatever its body, the
  unit is built; the only control channel the body receives is the join of the input
  control channels, which carries its \<open>a\<close>-th token exactly when every input control
  channel does; and in every output payload channel the end-of-stream flag of the \<open>a\<close>-th
  tuple is the disjunction of the end-of-stream flags of the \<open>a\<close>-th tuples of the inputs.
\<close>

theorem combine_eos_is_or:
  assumes "ins \<noteq> []"
  shows "\<exists>outs. Combine_unit lambda ins initCtrl = Inr (outs, initCtrl) \<and>
           map snd outs =
             map (\<lambda>r. snd (lambda (map (\<lambda>arg. map fst (fst arg)) ins) (Combine_ctrlJoin ins)))
                 (fst (lambda (map (\<lambda>arg. map fst (fst arg)) ins) (Combine_ctrlJoin ins))) \<and>
           (\<forall>a. (a < length (Combine_ctrlJoin ins)) = (\<forall>arg \<in> set ins. a < length (snd arg))) \<and>
           (\<forall>out \<in> set outs. \<forall>a < length (fst out).
              snd (fst out ! a) = (\<exists>arg \<in> set ins. snd (fst arg ! a)))"
proof -
  from assms obtain i0 rest where ins: "ins = i0 # rest" by (cases ins) auto
  define eos where "eos = foldl OrIOp (map snd (fst i0)) (map (\<lambda>arg. map snd (fst arg)) rest)"
  have eos_nth: "snd (PackOp r eos ! a) = (\<exists>arg \<in> set ins. snd (fst arg ! a))"
    if "a < length (PackOp r eos)" for r :: "'c list" and a
  proof -
    from that have a: "a < length eos" and ar: "a < length r" by (simp_all add: PackOp_def)
    from foldl_OrIOp_nth [OF a [unfolded eos_def]]
    have "eos ! a = (\<exists>arg \<in> set ins. snd (fst arg ! a))"
      by (auto simp: ins eos_def)
    with a ar show ?thesis by (simp add: PackOp_def)
  qed
  have join: "(a < length (Combine_ctrlJoin ins)) = (\<forall>arg \<in> set ins. a < length (snd arg))" for a
    using assms by (simp add: Combine_ctrlJoin_def JoinOp_length)
  show ?thesis
    using eos_nth join
    by (auto simp: Combine_unit_def buildReduceTree_def ins UnpackOp_0_def UnpackOp_1_def
        eos_def Let_def comp_def)
qed

theorem combine_eos_is_or_witness:
  "[([(1 :: int, False), (3, False), (0, True)], [(), (), ()]),
    ([(1, False), (3, True)], [(), ()])] \<noteq> [] \<and>
   Combine_unit (\<lambda>ds c. ([map2 (+) (ds ! 0) (ds ! 1)], c))
     [([(1 :: int, False), (3, False), (0, True)], [(), (), ()]),
      ([(1, False), (3, True)], [(), ()])] [()] =
     Inr ([([(2, False), (6, True)], [(), ()])], [()]) \<and>
   length (Combine_ctrlJoin
     [([(1 :: int, False), (3, False), (0, True)], [(), (), ()]),
      ([(1, False), (3, True)], [(), ()])]) = 2"
proof -
  let ?ins = "[([(1 :: int, False), (3, False), (0, True)], [(), (), ()]),
               ([(1, False), (3, True)], [(), ()])]"
  let ?lambda = "\<lambda>ds c. ([map2 (+) (ds ! 0) (ds ! 1)], c) :: int list list \<times> unit list"
  have h: "?ins \<noteq> []" by simp
  from combine_eos_is_or [OF h, of ?lambda "[()]"]
  obtain outs where o: "Combine_unit ?lambda ?ins [()] = Inr (outs, [()])"
    and j: "\<forall>a. (a < length (Combine_ctrlJoin ?ins)) = (\<forall>arg \<in> set ?ins. a < length (snd arg))"
    by blast
  have "Combine_unit ?lambda ?ins [()] = Inr ([([(2, False), (6, True)], [(), ()])], [()])"
    by (simp add: Combine_unit_def Combine_ctrlJoin_def buildReduceTree_def UnpackOp_0_def
        UnpackOp_1_def OrIOp_def PackOp_def)
  moreover from j have "2 < length (Combine_ctrlJoin ?ins) = False" "1 < length (Combine_ctrlJoin ?ins)"
    by simp_all
  then have "length (Combine_ctrlJoin ?ins) = 2" by simp
  ultimately show ?thesis using o by simp
qed

section \<open>Every value has one consumer\<close>

lemma addForkOps_addSinkOps_one_use:
  "\<exists>forked sunk. addForkOps funcOp = Some forked \<and> addSinkOps forked = Some sunk \<and>
                 verifyAllValuesHasOneUse sunk"
proof -
  have "verifyAllValuesHasOneUse
     (map (\<lambda>numUses. if numUses = 0 then 1 else numUses)
        (concat (map (\<lambda>numUses. if 1 < numUses then 1 # replicate numUses 1 else [numUses]) funcOp)))"
    by (induction funcOp) (auto simp: verifyAllValuesHasOneUse_def list_all_iff)
  then show ?thesis
    by (simp add: addForkOps_def addSinkOps_def)
qed

lemma materialize_checked:
  "materializeForksAndSinks forks sinks verify m = Some m' \<Longrightarrow> \<forall>funcOp \<in> set m'. verify funcOp"
  by (induction m arbitrary: m') (auto split: option.splits if_splits)

lemma materialize_violation:
  "funcOp \<in> set m \<Longrightarrow> forks funcOp = Some forked \<Longrightarrow> sinks forked = Some sunk \<Longrightarrow>
   \<not> verify sunk \<Longrightarrow> materializeForksAndSinks forks sinks verify m = None"
  by (induction m) (auto split: option.splits)

lemma materialize_succeeds:
  "\<exists>m'. materializeForksAndSinks addForkOps addSinkOps verifyAllValuesHasOneUse m = Some m' \<and>
        length m' = length m"
proof (induction m)
  case Nil
  then show ?case by simp
next
  case (Cons funcOp m)
  from addForkOps_addSinkOps_one_use [of funcOp] obtain forked sunk where
    "addForkOps funcOp = Some forked" "addSinkOps forked = Some sunk"
    "verifyAllValuesHasOneUse sunk"
    by blast
  with Cons.IH show ?case by auto
qed

text \<open>
  Claim C5: when \<open>materializeForksAndSinks\<close> succeeds, whatever the fork and sink
  insertion did, every value of every unit of the module has exactly one consumer; a
  unit that is left with a value of another number of consumers makes it fail; and with
  the fork and sink insertion as described (a fork for a value with several consumers, a
  sink for a value with none) it succeeds on every module.
\<close>

theorem materialize_one_consumer:
  "(materializeForksAndSinks forks sinks verifyAllValuesHasOneUse m = Some m' \<longrightarrow>
      (\<forall>funcOp \<in> set m'. \<forall>numUses \<in> set funcOp. numUses = 1)) \<and>
   (funcOp \<in> set m \<longrightarrow> forks funcOp = Some forked \<longrightarrow> sinks forked = Some sunk \<longrightarrow>
      \<not> verifyAllValuesHasOneUse sunk \<longrightarrow>
      materializeForksAndSinks forks sinks verifyAllValuesHasOneUse m = None) \<and>
   (\<exists>m''. materializeForksAndSinks addForkOps addSinkOps verifyAllValuesHasOneUse m = Some m'' \<and>
          length m'' = length m)"
  using materialize_checked [of forks sinks verifyAllValuesHasOneUse m m']
        materialize_violation [of funcOp m forks forked sinks sunk verifyAllValuesHasOneUse]
        materialize_succeeds [of m]
  by (auto simp: verifyAllValuesHasOneUse_def list_all_iff)

theorem materialize_one_consumer_witness:
  "materializeForksAndSinks addForkOps addSinkOps verifyAllValuesHasOneUse [[2, 0, 1], [1]] =
     Some [[1, 1, 1, 1, 1], [1]] \<and>
   [3, 1] \<in> set [[1], [3, 1]] \<and> \<not> verifyAllValuesHasOneUse [3, 1] \<and>
   materializeForksAndSinks Some Some verifyAllValuesHasOneUse [[1], [3, 1]] = None"
proof -
  have a: "materializeForksAndSinks addForkOps addSinkOps verifyAllValuesHasOneUse [[2, 0, 1], [1]] =
     Some [[1, 1, 1, 1, 1], [1]]"
    by (simp add: addForkOps_def addSinkOps_def verifyAllValuesHasOneUse_def numeral_2_eq_2)
  have b: "[3, 1] \<in> set [[1], [3, 1 :: nat]]" by simp
  have c: "\<not> verifyAllValuesHasOneUse [3, 1]" by (simp add: verifyAllValuesHasOneUse_def)
  from materialize_one_consumer [of addForkOps addSinkOps "[[2, 0, 1], [1]]" "[[1, 1, 1, 1, 1], [1]]"
        "[3, 1]" "[3, 1]" "[3, 1]"]
      materialize_one_consumer [of Some Some "[[1], [3, 1]]" "[]" "[3, 1]" "[3, 1]" "[3, 1]"] a b c
  show ?thesis by simp
qed

section \<open>The backward walk for the control token\<close>

lemma getCtrlSignal_reaches:
  "getCtrlSignal xs = Inr ctrl \<Longrightarrow>
     \<exists>t. first_operand_step\<^sup>*\<^sup>* (hd xs) t \<and>
         ((\<exists>owner i. t = BlockArgument owner i \<and> last (block_argTypes owner) = NoneType \<and>
                      ctrl = BlockArgument owner (length (block_argTypes owner) - 1)) \<or>
          (\<exists>operands resultTypes i.
              t = OpResult (Operation InstanceOp operands resultTypes) i \<and>
              ctrl = OpResult (Operation InstanceOp operands resultTypes) (length resultTypes - 1)))"
proof (induction xs rule: getCtrlSignal.induct)
  case 1
  then show ?case by simp
next
  case (2 owner i rest)
  then have "last (block_argTypes owner) = NoneType \<and>
             ctrl = BlockArgument owner (length (block_argTypes owner) - 1)"
    by (auto simp: getBlockCtrlSignal_def block_back_def split: list.splits if_splits)
  then show ?case by auto
next
  case (3 kind operands resultTypes i rest)
  show ?case
  proof (cases "kind = InstanceOp")
    case True
    with 3 show ?thesis by (auto split: if_splits)
  next
    case False
    with 3 have g: "getCtrlSignal operands = Inr ctrl" by simp
    then obtain fstOp rest' where ops: "operands = fstOp # rest'" by (cases operands) auto
    from "3.IH" [OF False g] obtain t where
      t: "first_operand_step\<^sup>*\<^sup>* fstOp t" and
      e: "(\<exists>owner i. t = BlockArgument owner i \<and> last (block_argTypes owner) = NoneType \<and>
                      ctrl = BlockArgument owner (length (block_argTypes owner) - 1)) \<or>
          (\<exists>operands resultTypes i.
              t = OpResult (Operation InstanceOp operands resultTypes) i \<and>
              ctrl = OpResult (Operation InstanceOp operands resultTypes) (length resultTypes - 1))"
      by (auto simp: ops)
    have "first_operand_step (OpResult (Operation kind operands resultTypes) i) fstOp"
      unfolding ops using False by (rule first_operand_step.intros)
    from this t have "first_operand_step\<^sup>*\<^sup>* (OpResult (Operation kind operands resultTypes) i) t"
      by (rule converse_rtranclp_into_rtranclp)
    with e show ?thesis by auto
  qed
qed

lemma getCtrlSignal_no_operands:
  "first_operand_step\<^sup>*\<^sup>* v t \<Longrightarrow> t = OpResult (Operation kind [] resultTypes) i \<Longrightarrow>
   kind \<noteq> InstanceOp \<Longrightarrow> getCtrlSignal (v # vs) = Inl AssertionFailed"
proof (induction arbitrary: vs rule: converse_rtranclp_induct)
  case base
  then show ?case by simp
next
  case (step y z)
  from step.hyps(1) obtain k rest rts j where
    y: "y = OpResult (Operation k (z # rest) rts) j" and k: "k \<noteq> InstanceOp"
    by (auto elim: first_operand_step.cases)
  from step.IH [OF step.prems, of rest] show ?case
    by (simp add: y k)
qed

text \<open>
  Claim C10: \<open>getCtrlSignal\<close> fails its assertion on the empty operand list; on a
  non-empty list it returns a control value only if the walk from the first operand,
  from a result to the first operand of its producer, reaches a block argument (the value
  is then the trailing argument of that block, of type none) or a result of an instance
  (the value is then the trailing result of that instance); if the walk reaches a result of
  a producer without operands, it fails the assertion; and for an operation without
  operands \<open>resolveNewOperands\<close> takes the trailing argument of the enclosing block
  itself.
\<close>

theorem getCtrlSignal_partial:
  "getCtrlSignal [] = Inl AssertionFailed \<and>
   (getCtrlSignal (v # vs) = Inr ctrl \<longrightarrow>
      (\<exists>t. first_operand_step\<^sup>*\<^sup>* v t \<and>
         ((\<exists>owner i. t = BlockArgument owner i \<and> last (block_argTypes owner) = NoneType \<and>
                      ctrl = BlockArgument owner (length (block_argTypes owner) - 1)) \<or>
          (\<exists>operands resultTypes i.
              t = OpResult (Operation InstanceOp operands resultTypes) i \<and>
              ctrl = OpResult (Operation InstanceOp operands resultTypes) (length resultTypes - 1))))) \<and>
   (first_operand_step\<^sup>*\<^sup>* v (OpResult (Operation kind [] resultTypes) i) \<longrightarrow> kind \<noteq> InstanceOp \<longrightarrow>
      getCtrlSignal (v # vs) = Inl AssertionFailed) \<and>
   resolveNewOperands blk [] =
     (case block_argTypes blk of
        [] \<Rightarrow> Inl AssertionFailed
      | _ \<Rightarrow> Inr [BlockArgument blk (length (block_argTypes blk) - 1)])"
  using getCtrlSignal_reaches [of "v # vs" ctrl]
        getCtrlSignal_no_operands [of v _ kind resultTypes i vs]
  by (auto simp: resolveNewOperands_def block_back_def split: list.splits)


theorem getCtrlSignal_partial_witness:
  "getCtrlSignal
     [OpResult (Operation UnrealizedConversionCastOp
        [OpResult (Operation InstanceOp [BlockArgument (Block [NoneType]) 0]
                     [TupleType [getI64Type, getI1Type], NoneType]) 0,
         OpResult (Operation InstanceOp [BlockArgument (Block [NoneType]) 0]
                     [TupleType [getI64Type, getI1Type], NoneType]) 1]
        [StreamType getI64Type]) 0] =
     Inr (OpResult (Operation InstanceOp [BlockArgument (Block [NoneType]) 0]
                     [TupleType [getI64Type, getI1Type], NoneType]) 1) \<and>
   first_operand_step\<^sup>*\<^sup>*
     (OpResult (Operation (OtherOp ''arith.addi'')
        [OpResult (Operation (OtherOp ''arith.constant'') [] [getI64Type]) 0,
         BlockArgument (Block [NoneType]) 0] [getI64Type]) 0)
     (OpResult (Operation (OtherOp ''arith.constant'') [] [getI64Type]) 0) \<and>
   OtherOp ''arith.constant'' \<noteq> InstanceOp \<and>
   getCtrlSignal
     [OpResult (Operation (OtherOp ''arith.addi'')
        [OpResult (Operation (OtherOp ''arith.constant'') [] [getI64Type]) 0,
         BlockArgument (Block [NoneType]) 0] [getI64Type]) 0] = Inl AssertionFailed \<and>
   getCtrlSignal [] = Inl AssertionFailed \<and>
   resolveNewOperands (Block [getI64Type, NoneType]) [] =
     Inr [BlockArgument (Block [getI64Type, NoneType]) 1]"
proof -
  let ?const = "OpResult (Operation (OtherOp ''arith.constant'') [] [getI64Type]) 0"
  let ?add = "OpResult (Operation (OtherOp ''arith.addi'')
                [?const, BlockArgument (Block [NoneType]) 0] [getI64Type]) 0"
  let ?inst = "Operation InstanceOp [BlockArgument (Block [NoneType]) 0]
                 [TupleType [getI64Type, getI1Type], NoneType]"
  let ?cast = "OpResult (Operation UnrealizedConversionCastOp
                 [OpResult ?inst 0, OpResult ?inst 1] [StreamType getI64Type]) 0"
  have g: "getCtrlSignal (?cast # []) = Inr (OpResult ?inst 1)" by simp
  have "first_operand_step ?add ?const"
    by (rule first_operand_step.intros) simp
  then have r: "first_operand_step\<^sup>*\<^sup>* ?add ?const" by (rule r_into_rtranclp)
  have k: "OtherOp ''arith.constant'' \<noteq> InstanceOp" by simp
  from getCtrlSignal_partial [where v = ?cast and vs = "[]" and ctrl = "OpResult ?inst 1"
      and blk = "Block [getI64Type, NoneType]"]
    getCtrlSignal_partial [where v = ?add and vs = "[]" and kind = "OtherOp ''arith.constant''"
      and resultTypes = "[getI64Type]" and i = 0 and blk = "Block [getI64Type, NoneType]"] g r k
  show ?thesis by simp
qed

section \<open>One call of the uniquer\<close>

text \<open>
  What \<open>getUniqueSymName\<close> does on a uniquer object that is alive: the name it returns
  is not a used name and is added to the used names; and on fewer than \<open>2 ^ 32\<close> used
  names (the counter is an \<open>unsigned\<close>) it returns, with the first free name in the
  order bare name, \<open>_1\<close>, \<open>_2\<close>, and so on.
\<close>

lemma digit_val_digit_char: "d < 10 \<Longrightarrow> digit_val (digit_char d) = d"
proof -
  assume "d < 10"
  then have "d = 0 \<or> d = 1 \<or> d = 2 \<or> d = 3 \<or> d = 4 \<or> d = 5 \<or> d = 6 \<or> d = 7 \<or> d = 8 \<or> d = 9"
    by arith
  then show ?thesis
    by (elim disjE) (simp_all add: digit_val_def digit_char_def)
qed

lemma unsigned_of_string_inverse: "unsigned_of_string (string_of_unsigned n) = n"
proof (induction n rule: string_of_unsigned.induct)
  case (1 n)
  show ?case
  proof (cases "n < 10")
    case True
    then show ?thesis
      by (subst string_of_unsigned.simps) (simp add: unsigned_of_string_def digit_val_digit_char)
  next
    case False
    with 1 have "unsigned_of_string (string_of_unsigned (n div 10)) = n div 10" by simp
    with False show ?thesis
      by (subst string_of_unsigned.simps)
         (simp add: unsigned_of_string_def digit_val_digit_char)
  qed
qed

lemma string_of_unsigned_inj: "string_of_unsigned a = string_of_unsigned b \<Longrightarrow> a = b"
  by (metis unsigned_of_string_inverse)

lemma candidate_inj: "inj (candidate opName)"
proof (rule injI)
  fix a b assume "candidate opName a = candidate opName b"
  then show "a = b"
    by (auto simp: candidate_def formatv_def split: if_splits dest: string_of_unsigned_inj)
qed

lemma candidate_prefix_card:
  assumes "finite U" "\<forall>i < k. candidate opName i \<in> U"
  shows "k \<le> card U"
proof -
  have "card (candidate opName ` {..<k}) = k"
    by (simp add: card_image inj_on_subset [OF candidate_inj])
  moreover have "candidate opName ` {..<k} \<subseteq> U" using assms(2) by auto
  ultimately show ?thesis using card_mono [OF assms(1)] by metis
qed

lemma loop_finds_first_free:
  assumes "finite U" "card U < 2 ^ 32" "\<forall>i < k. candidate opName i \<in> U"
  shows "\<exists>r. getUniqueSymName_loop U opName (candidate opName k) ((k + 1) mod 2 ^ 32) =
               Some (candidate opName r) \<and> candidate opName r \<notin> U \<and> (\<forall>i < r. candidate opName i \<in> U)"
  using assms(3)
proof (induction "card U - k" arbitrary: k rule: less_induct)
  case less
  show ?case
  proof (cases "candidate opName k \<in> U")
    case False
    with less.prems show ?thesis
      by (subst getUniqueSymName_loop.simps) auto
  next
    case True
    with less.prems have all: "\<forall>i < Suc k. candidate opName i \<in> U"
      by (auto simp: less_Suc_eq)
    from candidate_prefix_card [OF assms(1) all] have k: "Suc k \<le> card U" .
    with assms(2) have m: "(k + 1) mod 2 ^ 32 = k + 1" by simp
    from k have "card U - Suc k < card U - k" by simp
    from less.hyps [OF this all] obtain r where
      r: "getUniqueSymName_loop U opName (candidate opName (Suc k)) ((Suc k + 1) mod 2 ^ 32) =
            Some (candidate opName r)" "candidate opName r \<notin> U" "\<forall>i < r. candidate opName i \<in> U"
      by blast
    have "getUniqueSymName_loop U opName (candidate opName k) ((k + 1) mod 2 ^ 32) =
          getUniqueSymName_loop U opName (candidate opName (Suc k)) ((Suc k + 1) mod 2 ^ 32)"
      using True m by (subst getUniqueSymName_loop.simps) (simp add: candidate_def)
    with r show ?thesis by metis
  qed
qed

lemma loop_result_free:
  assumes "getUniqueSymName_loop U opName name cnt = Some r"
  shows "r \<notin> U"
  using assms
  by (rule getUniqueSymName_loop.raw_induct [rotated 1, where P = "\<lambda>U opName name cnt r. r \<notin> U"])
     (auto split: if_splits)

lemma getUniqueSymName_free:
  "getUniqueSymName U op = Some (name, U') \<Longrightarrow> name \<notin> U \<and> U' = insert name U"
  by (auto simp: getUniqueSymName_def addSymbol_def Let_def split: option.splits
      dest: loop_result_free)

lemma getUniqueSymName_first_free:
  assumes "finite U" "card U < 2 ^ 32"
  shows "\<exists>k. getUniqueSymName U op =
               Some (candidate (getBareOpName op) k, insert (candidate (getBareOpName op) k) U) \<and>
             candidate (getBareOpName op) k \<notin> U \<and> (\<forall>i < k. candidate (getBareOpName op) i \<in> U)"
proof -
  from loop_finds_first_free [OF assms, of 0 "getBareOpName op"]
  obtain r where "getUniqueSymName_loop U (getBareOpName op) (getBareOpName op) 1 =
                    Some (candidate (getBareOpName op) r)"
    "candidate (getBareOpName op) r \<notin> U" "\<forall>i < r. candidate (getBareOpName op) i \<in> U"
    by (auto simp: candidate_def)
  then show ?thesis
    by (auto simp: getUniqueSymName_def addSymbol_def Let_def)
qed

section \<open>Create\<close>

lemma cond_br_true_all_false:
  "\<forall>b \<in> set bs. \<not> b \<Longrightarrow> ConditionalBranchOp_trueResult bs ys = []"
  by (auto simp: ConditionalBranchOp_trueResult_def filter_empty_conv dest!: set_zip_leftD)

lemma useCtrl_once:
  assumes "ctrlIn \<noteq> []"
  shows "ConditionalBranchOp_trueResult (BufferOp 1 [True] (ConstantOp False ctrlIn)) ctrlIn = [()]"
proof -
  from assms obtain c cs where ctrlIn: "ctrlIn = c # cs" by (cases ctrlIn) auto
  have "ConditionalBranchOp_trueResult (map (\<lambda>_. False) ctrlIn) cs = []"
    by (rule cond_br_true_all_false) simp
  then show ?thesis
    by (simp add: ConditionalBranchOp_trueResult_def BufferOp_def ConstantOp_def ctrlIn)
qed

lemma ctrl_loop: "feedback n (\<lambda>tmpCtrl. MergeOp [()] (BufferOp 1 [] tmpCtrl)) = replicate n ()"
  by (induction n) (simp_all add: MergeOp_def BufferOp_def)

lemma map2_replicate:
  "length xs \<le> n \<Longrightarrow> map2 f xs (replicate n c) = map (\<lambda>x. f x c) xs"
proof (induction xs arbitrary: n)
  case Nil
  then show ?case by simp
next
  case (Cons x xs)
  then obtain m where "n = Suc m" by (cases n) auto
  with Cons show ?case by simp
qed

lemma cnt_loop:
  "k \<le> n \<Longrightarrow>
   feedback k (\<lambda>cnt. BufferOp 1 [0] (AddIOp cnt (ConstantOp 1 (replicate n ())))) =
     map of_nat [0..<k]"
proof (induction k)
  case 0
  then show ?case by simp
next
  case (Suc k)
  then have "feedback k (\<lambda>cnt. BufferOp 1 [0] (AddIOp cnt (ConstantOp 1 (replicate n ())))) =
     map of_nat [0..<k]" by simp
  moreover have "(0 :: 64 word) # map (\<lambda>x. of_nat x + 1) [0..<k] = map of_nat [0..<Suc k]"
    by (induction k) simp_all
  ultimately show ?case using Suc.prems
    by (simp add: BufferOp_def AddIOp_def ConstantOp_def map2_replicate comp_def del: upt_Suc)
qed

lemma pack_out:
  "PackOp (vs @ replicate n (0 :: int)) (map g [0..<n]) =
     map (\<lambda>k. (if k < length vs then vs ! k else 0, g k)) [0..<n]"
  by (rule nth_equalityI) (auto simp: PackOp_def nth_append)

lemma Create_unit_out:
  assumes "ctrlIn \<noteq> []"
    and "CreateOpLowering \<lparr>create_values = map IntegerAttr vs, create_elementType = T\<rparr> = Inr u"
  shows "Create_unit u n ctrlIn =
           (map (\<lambda>k. (if k < length vs then vs ! k else 0,
                       (of_nat k :: 64 word) = of_nat (length vs))) [0..<n],
            replicate n ())"
proof -
  have iv: "list_all isa_IntegerAttr (map IntegerAttr vs)" "map getInt (map IntegerAttr vs) = vs"
    by (induction vs) simp_all
  from assms(2) have u: "bufSize u = length vs" "fst_initValues u = [True]"
    "dataBuf_initValues u = rev vs" "cnt_initValues u = [0]"
    using iv
    by (auto simp: CreateOpLowering_def replaceWithInstance_def Let_def rev_map [symmetric]
        split: if_splits)
  have c: "map2 (=) (map of_nat [0..<n]) (replicate n (of_nat (length vs) :: 64 word)) =
           map (\<lambda>k. (of_nat k :: 64 word) = of_nat (length vs)) [0..<n]"
    by (simp add: map2_replicate comp_def)
  show ?thesis
    unfolding Create_unit_def Let_def u
    unfolding useCtrl_once [OF assms(1)] ctrl_loop
    unfolding cnt_loop [OF order_refl]
    unfolding CmpIOp_eq_def ConstantOp_def BufferOp_def
    by (simp add: c pack_out del: upt_Suc)
qed


lemma Create_unit_nth:
  assumes "ctrlIn \<noteq> []"
    and "CreateOpLowering \<lparr>create_values = map IntegerAttr vs, create_elementType = T\<rparr> = Inr u"
    and "k < n"
  shows "fst (Create_unit u n ctrlIn) ! k =
           (if k < length vs then vs ! k else 0, (of_nat k :: 64 word) = of_nat (length vs))"
    and "length (fst (Create_unit u n ctrlIn)) = n"
  using assms(3) by (simp_all add: Create_unit_out [OF assms(1,2)])

lemma word64_of_nat_eq:
  "((of_nat k :: 64 word) = of_nat n) = (k mod 2 ^ 64 = n mod 2 ^ 64)"
  by (simp add: word_of_nat_eq_iff take_bit_eq_mod)

lemma CreateOpLowering_567:
  "CreateOpLowering \<lparr>create_values = map IntegerAttr [5, 6, 7], create_elementType = getI64Type\<rparr> =
     Inr \<lparr> create_signature =
             \<lparr> argTypes = [NoneType], resTypes = [TupleType [getI64Type, getI1Type], NoneType] \<rparr>,
           bufSize = 3, fst_initValues = [True], dataBuf_initValues = [7, 6, 5],
           cnt_initValues = [0] \<rparr>"
  by (simp add: CreateOpLowering_def replaceWithInstance_def getI64Type_def)

text \<open>
  Claim C1, as the code has it: driven by at least one control token, the unit of a create
  with the literals \<open>vs\<close> emits every literal with the end-of-stream flag false, in
  order, and then one more activation that carries the bubble \<open>0\<close> with the flag true.
  The last literal is emitted with the flag false.
\<close>

theorem create_emits:
  assumes "ctrlIn \<noteq> []"
    and "CreateOpLowering \<lparr>create_values = map IntegerAttr vs, create_elementType = T\<rparr> = Inr u"
    and "length vs < 2 ^ 64"
  shows "Create_unit u (Suc (length vs)) ctrlIn =
           (map (\<lambda>v. (v, False)) vs @ [(0, True)], replicate (Suc (length vs)) ())"
proof -
  have "map (\<lambda>k. (if k < length vs then vs ! k else 0,
                   (of_nat k :: 64 word) = of_nat (length vs))) [0..<length vs] =
        map (\<lambda>v. (v, False)) vs"
    using assms(3) by (intro nth_equalityI) (auto simp: word64_of_nat_eq)
  then show ?thesis
    by (simp add: Create_unit_out [OF assms(1,2)])
qed

theorem create_emits_witness:
  "[()] \<noteq> [] \<and>
   CreateOpLowering \<lparr>create_values = map IntegerAttr [5, 6, 7], create_elementType = getI64Type\<rparr> =
     Inr \<lparr> create_signature =
             \<lparr> argTypes = [NoneType], resTypes = [TupleType [getI64Type, getI1Type], NoneType] \<rparr>,
           bufSize = 3, fst_initValues = [True], dataBuf_initValues = [7, 6, 5],
           cnt_initValues = [0] \<rparr> \<and>
   length [5 :: int, 6, 7] < 2 ^ 64 \<and>
   Create_unit \<lparr> create_signature =
             \<lparr> argTypes = [NoneType], resTypes = [TupleType [getI64Type, getI1Type], NoneType] \<rparr>,
           bufSize = 3, fst_initValues = [True], dataBuf_initValues = [7, 6, 5],
           cnt_initValues = [0] \<rparr> (Suc (length [5 :: int, 6, 7])) [()] =
     ([(5, False), (6, False), (7, False), (0, True)], [(), (), (), ()])"
proof -
  have h: "[()] \<noteq> []" by simp
  have l: "length [5 :: int, 6, 7] < 2 ^ 64" by simp
  from create_emits [OF h CreateOpLowering_567 l] CreateOpLowering_567
  show ?thesis by simp
qed

text \<open>
  Claim C1, as the spec states it: the first three activations of \<open>create([5,6,7], i64)\<close>
  are not \<open>(5,false), (6,false), (7,true)\<close>; the third one has the flag false.
\<close>

theorem create_last_element_eos_counterexample:
  "CreateOpLowering \<lparr>create_values = map IntegerAttr [5, 6, 7], create_elementType = getI64Type\<rparr> =
     Inr \<lparr> create_signature =
             \<lparr> argTypes = [NoneType], resTypes = [TupleType [getI64Type, getI1Type], NoneType] \<rparr>,
           bufSize = 3, fst_initValues = [True], dataBuf_initValues = [7, 6, 5],
           cnt_initValues = [0] \<rparr> \<and>
   fst (Create_unit \<lparr> create_signature =
             \<lparr> argTypes = [NoneType], resTypes = [TupleType [getI64Type, getI1Type], NoneType] \<rparr>,
           bufSize = 3, fst_initValues = [True], dataBuf_initValues = [7, 6, 5],
           cnt_initValues = [0] \<rparr> 3 [()]) = [(5, False), (6, False), (7, False)] \<and>
   fst (Create_unit \<lparr> create_signature =
             \<lparr> argTypes = [NoneType], resTypes = [TupleType [getI64Type, getI1Type], NoneType] \<rparr>,
           bufSize = 3, fst_initValues = [True], dataBuf_initValues = [7, 6, 5],
           cnt_initValues = [0] \<rparr> 3 [()]) \<noteq> [(5, False), (6, False), (7, True)]"
proof -
  have h: "[()] \<noteq> []" by simp
  have "[0..<3] = [0, 1, 2]" by (simp add: upt_rec)
  then show ?thesis
    using Create_unit_out [OF h CreateOpLowering_567, of 3] CreateOpLowering_567
    by simp
qed

text \<open>
  Claim C2, as the code has it: the unit emits one activation for each traversal of its
  control cycle, and the activation number \<open>k + 1\<close> has the end-of-stream flag true
  exactly when \<open>k\<close> and the number of literals agree modulo \<open>2 ^ 64\<close> (the counter is a
  64-bit integer that starts at 0 and is incremented on every activation). So among the
  first \<open>2 ^ 64\<close> activations, and for fewer than \<open>2 ^ 64\<close> literals, the flag is true
  at the activation one past the last literal and nowhere else.
\<close>

theorem create_eos_positions:
  assumes "ctrlIn \<noteq> []"
    and "CreateOpLowering \<lparr>create_values = map IntegerAttr vs, create_elementType = T\<rparr> = Inr u"
    and "k < n"
  shows "length (fst (Create_unit u n ctrlIn)) = n \<and>
         snd (fst (Create_unit u n ctrlIn) ! k) = (k mod 2 ^ 64 = length vs mod 2 ^ 64) \<and>
         (k < 2 ^ 64 \<longrightarrow> length vs < 2 ^ 64 \<longrightarrow>
            snd (fst (Create_unit u n ctrlIn) ! k) = (k = length vs))"
  using assms(3) by (simp add: Create_unit_nth [OF assms] word64_of_nat_eq)

theorem create_eos_positions_witness:
  "[()] \<noteq> [] \<and>
   CreateOpLowering \<lparr>create_values = map IntegerAttr [5, 6, 7], create_elementType = getI64Type\<rparr> =
     Inr \<lparr> create_signature =
             \<lparr> argTypes = [NoneType], resTypes = [TupleType [getI64Type, getI1Type], NoneType] \<rparr>,
           bufSize = 3, fst_initValues = [True], dataBuf_initValues = [7, 6, 5],
           cnt_initValues = [0] \<rparr> \<and>
   (3 :: nat) < 6 \<and> (3 :: nat) < 2 ^ 64 \<and> length [5 :: int, 6, 7] < 2 ^ 64 \<and>
   length (fst (Create_unit \<lparr> create_signature =
             \<lparr> argTypes = [NoneType], resTypes = [TupleType [getI64Type, getI1Type], NoneType] \<rparr>,
           bufSize = 3, fst_initValues = [True], dataBuf_initValues = [7, 6, 5],
           cnt_initValues = [0] \<rparr> 6 [()])) = 6 \<and>
   snd (fst (Create_unit \<lparr> create_signature =
             \<lparr> argTypes = [NoneType], resTypes = [TupleType [getI64Type, getI1Type], NoneType] \<rparr>,
           bufSize = 3, fst_initValues = [True], dataBuf_initValues = [7, 6, 5],
           cnt_initValues = [0] \<rparr> 6 [()]) ! 3)"
proof -
  have h: "[()] \<noteq> []" by simp
  have l: "(3 :: nat) < 6" by simp
  from create_eos_positions [OF h CreateOpLowering_567 l] CreateOpLowering_567
  show ?thesis by simp
qed

text \<open>
  Claim C2, as the spec states it (exactly one activation with the flag true): the control
  cycle never stops and the counter wraps around, so for \<open>create([5,6,7], i64)\<close> the flag
  is true at the activation number \<open>4\<close> and again at the activation number \<open>2 ^ 64 + 4\<close>.
\<close>

theorem create_eos_recurs_counterexample:
  "CreateOpLowering \<lparr>create_values = map IntegerAttr [5, 6, 7], create_elementType = getI64Type\<rparr> =
     Inr \<lparr> create_signature =
             \<lparr> argTypes = [NoneType], resTypes = [TupleType [getI64Type, getI1Type], NoneType] \<rparr>,
           bufSize = 3, fst_initValues = [True], dataBuf_initValues = [7, 6, 5],
           cnt_initValues = [0] \<rparr> \<and>
   snd (fst (Create_unit \<lparr> create_signature =
             \<lparr> argTypes = [NoneType], resTypes = [TupleType [getI64Type, getI1Type], NoneType] \<rparr>,
           bufSize = 3, fst_initValues = [True], dataBuf_initValues = [7, 6, 5],
           cnt_initValues = [0] \<rparr> (2 ^ 64 + 4) [()]) ! 3) \<and>
   snd (fst (Create_unit \<lparr> create_signature =
             \<lparr> argTypes = [NoneType], resTypes = [TupleType [getI64Type, getI1Type], NoneType] \<rparr>,
           bufSize = 3, fst_initValues = [True], dataBuf_initValues = [7, 6, 5],
           cnt_initValues = [0] \<rparr> (2 ^ 64 + 4) [()]) ! (2 ^ 64 + 3))"
proof -
  have h: "[()] \<noteq> []" by simp
  have a: "(3 :: nat) < 2 ^ 64 + 4" and b: "(2 ^ 64 + 3 :: nat) < 2 ^ 64 + 4" by simp_all
  have m: "(2 ^ 64 + 3 :: nat) mod 2 ^ 64 = 3" by simp
  show ?thesis
    unfolding Create_unit_nth(1) [OF h CreateOpLowering_567 a]
      Create_unit_nth(1) [OF h CreateOpLowering_567 b] word64_of_nat_eq m
    using CreateOpLowering_567 by simp
qed

section \<open>Reduce\<close>

lemma cond_br_false_Cons:
  "ConditionalBranchOp_falseResult (False # bs) (y # ys) = y # ConditionalBranchOp_falseResult bs ys"
  "ConditionalBranchOp_falseResult (True # bs) (y # ys) = ConditionalBranchOp_falseResult bs ys"
  "ConditionalBranchOp_falseResult bs [] = []"
  "ConditionalBranchOp_falseResult [] ys = []"
  by (simp_all add: ConditionalBranchOp_falseResult_def)

lemma cond_br_true_Cons:
  "ConditionalBranchOp_trueResult (False # bs) (y # ys) = ConditionalBranchOp_trueResult bs ys"
  "ConditionalBranchOp_trueResult (True # bs) (y # ys) = y # ConditionalBranchOp_trueResult bs ys"
  "ConditionalBranchOp_trueResult bs [] = []"
  "ConditionalBranchOp_trueResult [] ys = []"
  by (simp_all add: ConditionalBranchOp_trueResult_def)

lemma accumulate_step:
  assumes "\<forall>t \<in> set pre. \<not> snd t"
  shows "a # map2 f (ConditionalBranchOp_falseResult (map snd pre @ True # er)
                      (take n (accumulated f a (map fst pre))))
                    (map fst pre @ r) =
         take (Suc n) (accumulated f a (map fst pre))"
  using assms
proof (induction pre arbitrary: a n)
  case Nil
  then show ?case by (cases n) (simp_all add: cond_br_false_Cons)
next
  case (Cons t pre)
  show ?case
  proof (cases n)
    case 0
    then show ?thesis by (simp add: cond_br_false_Cons)
  next
    case (Suc m)
    from Cons.prems have t: "snd t = False" and p: "\<forall>t \<in> set pre. \<not> snd t" by simp_all
    from Cons.IH [OF p, of "f a (fst t)" m] show ?thesis
      by (simp add: Suc t cond_br_false_Cons)
  qed
qed

lemma buffer_loop:
  assumes "\<forall>t \<in> set pre. \<not> snd t"
  shows "feedback n (\<lambda>buffer.
           BufferOp 1 [a]
             (fst (reduce_lambda f
                     (ConditionalBranchOp_falseResult (map snd pre @ True # er) buffer)
                     (map fst pre @ r) streamCtrl))) =
         take n (accumulated f a (map fst pre))"
proof (induction n)
  case 0
  then show ?case by simp
next
  case (Suc n)
  then show ?case
    using accumulate_step [OF assms, of a f er n r]
    by (simp add: BufferOp_def reduce_lambda_def)
qed

lemma length_accumulated: "length (accumulated f a ds) = Suc (length ds)"
  by (induction ds arbitrary: a) simp_all

lemma dataBr_true_at_eos:
  assumes "\<forall>t \<in> set pre. \<not> snd t"
  shows "ConditionalBranchOp_trueResult (map snd pre @ True # er) (accumulated f a (map fst pre)) =
           [foldl f a (map fst pre)]"
  using assms
proof (induction pre arbitrary: a)
  case Nil
  then show ?case by (simp add: cond_br_true_Cons)
next
  case (Cons t pre)
  then have "snd t = False" by simp
  with Cons show ?case by (simp add: cond_br_true_Cons)
qed


lemma cond_br_true_skip:
  "length ys = length bs \<Longrightarrow> \<forall>b \<in> set bs. \<not> b \<Longrightarrow>
   ConditionalBranchOp_trueResult (bs @ cs) (ys @ zs) = ConditionalBranchOp_trueResult cs zs"
  by (induction ys bs rule: list_induct2) (auto simp: cond_br_true_Cons)

lemma ReduceOpLowering_unit:
  assumes "ReduceOpLowering op = Inr u"
  shows "buffer_initValues u = [reduce_initValue op]" "select_initValues u = [1, 0]"
proof -
  from assms have "reduce_resultType op = StreamType getI64Type"
    using ReduceOpLowering_Inr_iff [of op] by blast
  with assms show "buffer_initValues u = [reduce_initValue op]" "select_initValues u = [1, 0]"
    by (auto simp: ReduceOpLowering_def replaceWithInstance_def)
qed

lemma Reduce_unit_silent:
  assumes "ReduceOpLowering op = Inr u" and "\<forall>t \<in> set pre. \<not> snd t"
  shows "Reduce_unit u f n pre streamCtrl initCtrl = ([], [], initCtrl)"
proof -
  have e: "\<forall>b \<in> set (map snd pre). \<not> b" using assms(2) by simp
  show ?thesis
    unfolding Reduce_unit_def Let_def UnpackOp_1_def ReduceOpLowering_unit [OF assms(1)]
      cond_br_true_all_false [OF e]
    by (simp add: ConstantOp_def PackOp_def BufferOp_def)
qed

lemma Reduce_unit_payload:
  assumes "ReduceOpLowering op = Inr u" and "\<forall>t \<in> set pre. \<not> snd t" and "length pre < n"
    and "length streamCtrl = length (pre @ (x, True) # rest)"
  shows "\<exists>more. Reduce_unit u f n (pre @ (x, True) # rest) streamCtrl initCtrl =
           ([(foldl f (reduce_initValue op) (map fst pre), False),
             (foldl f (reduce_initValue op) (map fst pre), True)],
            () # () # more, initCtrl) \<and> (rest = [] \<longrightarrow> more = [])"
proof -
  define acc where "acc = foldl f (reduce_initValue op) (map fst pre)"
  define eos where "eos = map snd pre @ True # map snd rest"
  define data where "data = map fst pre @ x # map fst rest"
  obtain c cr where sc: "streamCtrl = replicate (length pre) () @ c # cr"
    and cr: "length cr = length rest"
  proof
    show "streamCtrl = replicate (length pre) () @ () # replicate (length rest) ()"
      using assms(4) by (intro nth_equalityI) simp_all
    show "length (replicate (length rest) ()) = length rest" by simp
  qed
  have e: "\<forall>b \<in> set (map snd pre). \<not> b" using assms(2) by simp
  have buf: "feedback n (\<lambda>buffer.
           BufferOp 1 [reduce_initValue op]
             (fst (reduce_lambda f (ConditionalBranchOp_falseResult eos buffer) data streamCtrl))) =
         accumulated f (reduce_initValue op) (map fst pre)"
    unfolding eos_def data_def buffer_loop [OF assms(2)]
    using assms(3) by (simp add: length_accumulated)
  have dataBr: "ConditionalBranchOp_trueResult eos (accumulated f (reduce_initValue op) (map fst pre)) = [acc]"
    unfolding eos_def acc_def by (rule dataBr_true_at_eos [OF assms(2)])
  have eosBr: "ConditionalBranchOp_trueResult eos eos =
                 True # ConditionalBranchOp_trueResult (map snd rest) (map snd rest)"
    unfolding eos_def using cond_br_true_skip [OF _ e, of "map snd pre"]
    by (simp add: cond_br_true_Cons)
  have ctrlBr: "ConditionalBranchOp_trueResult eos streamCtrl =
                 c # ConditionalBranchOp_trueResult (map snd rest) cr"
    unfolding eos_def sc using cond_br_true_skip [OF _ e, of "replicate (length pre) ()"]
    by (simp add: cond_br_true_Cons)
  define k where "k = ConditionalBranchOp_trueResult (map snd rest) cr"
  have d: "map fst (pre @ (x, True) # rest) = data" "map snd (pre @ (x, True) # rest) = eos"
    by (simp_all add: data_def eos_def)
  have "Reduce_unit u f n (pre @ (x, True) # rest) streamCtrl initCtrl =
          ([(acc, False), (acc, True)],
           () # () # MuxOp (0 # map (\<lambda>_. 0) k) [k, k], initCtrl)"
    unfolding Reduce_unit_def Let_def UnpackOp_0_def UnpackOp_1_def ReduceOpLowering_unit [OF assms(1)]
      d buf dataBr eosBr
    by (simp add: reduce_lambda_def ctrlBr k_def [symmetric] ConstantOp_def PackOp_def BufferOp_def)
  moreover have "rest = [] \<longrightarrow> MuxOp (0 # map (\<lambda>_. 0) k) [k, k] = []"
    by (simp add: k_def cond_br_true_Cons)
  ultimately show ?thesis by (auto simp: acc_def)
qed


text \<open>
  Claim C3: for a reduce with body \<open>f\<close>, while every input activation has the
  end-of-stream flag false the unit emits neither a payload nor a control token; on an
  input whose first activation with the flag true comes after the activations \<open>pre\<close>,
  the payload output is the accumulated value of \<open>pre\<close> with the flag false followed
  directly by the same value with the flag true, and nothing else, whatever follows on the
  input; and when the input ends there, two control tokens are emitted with them. The
  accumulator cycle is observed for more traversals than \<open>pre\<close> has activations, and there
  is one control token for every input activation.
\<close>

theorem reduce_emits_once:
  assumes "ReduceOpLowering op = Inr u" and "\<forall>t \<in> set pre. \<not> snd t" and "length pre < n"
    and "length streamCtrl = length (pre @ (x, True) # rest)"
  shows "Reduce_unit u f n pre silentCtrl initCtrl = ([], [], initCtrl) \<and>
         fst (Reduce_unit u f n (pre @ (x, True) # rest) streamCtrl initCtrl) =
           [(foldl f (reduce_initValue op) (map fst pre), False),
            (foldl f (reduce_initValue op) (map fst pre), True)] \<and>
         (rest = [] \<longrightarrow>
            Reduce_unit u f n (pre @ [(x, True)]) streamCtrl initCtrl =
              ([(foldl f (reduce_initValue op) (map fst pre), False),
                (foldl f (reduce_initValue op) (map fst pre), True)], [(), ()], initCtrl))"
  using Reduce_unit_silent [OF assms(1,2), of f n silentCtrl initCtrl]
        Reduce_unit_payload [OF assms, of f initCtrl]
  by auto

theorem reduce_emits_once_witness:
  "ReduceOpLowering \<lparr>reduce_inputElementType = getI64Type,
                      reduce_resultType = StreamType getI64Type, reduce_initValue = 0\<rparr> =
     Inr \<lparr> reduce_signature =
             \<lparr> argTypes = [TupleType [getI64Type, getI1Type], NoneType, NoneType],
               resTypes = [TupleType [getI64Type, getI1Type], NoneType, NoneType] \<rparr>,
           buffer_initValues = [0], select_initValues = [1, 0] \<rparr> \<and>
   list_all (\<lambda>t. \<not> snd t) [(1 :: 64 word, False), (2, False), (3, False), (4, False)] \<and>
   length [(1 :: 64 word, False), (2, False), (3, False), (4, False)] < 5 \<and>
   length [(), (), (), (), ()] =
     length ([(1 :: 64 word, False), (2, False), (3, False), (4, False)] @ (0, True) # []) \<and>
   Reduce_unit \<lparr> reduce_signature =
             \<lparr> argTypes = [TupleType [getI64Type, getI1Type], NoneType, NoneType],
               resTypes = [TupleType [getI64Type, getI1Type], NoneType, NoneType] \<rparr>,
           buffer_initValues = [0], select_initValues = [1, 0] \<rparr> (+) 5
       [(1, False), (2, False), (3, False), (4, False)] [(), (), (), ()] [()] = ([], [], [()]) \<and>
   Reduce_unit \<lparr> reduce_signature =
             \<lparr> argTypes = [TupleType [getI64Type, getI1Type], NoneType, NoneType],
               resTypes = [TupleType [getI64Type, getI1Type], NoneType, NoneType] \<rparr>,
           buffer_initValues = [0], select_initValues = [1, 0] \<rparr> (+) 5
       ([(1, False), (2, False), (3, False), (4, False)] @ [(0, True)]) [(), (), (), (), ()] [()] =
     ([(10, False), (10, True)], [(), ()], [()])"
proof -
  let ?op = "\<lparr>reduce_inputElementType = getI64Type,
               reduce_resultType = StreamType getI64Type, reduce_initValue = 0\<rparr>"
  let ?pre = "[(1 :: 64 word, False), (2, False), (3, False), (4, False)]"
  have l: "ReduceOpLowering ?op =
     Inr \<lparr> reduce_signature =
             \<lparr> argTypes = [TupleType [getI64Type, getI1Type], NoneType, NoneType],
               resTypes = [TupleType [getI64Type, getI1Type], NoneType, NoneType] \<rparr>,
           buffer_initValues = [0], select_initValues = [1, 0] \<rparr>"
    by (simp add: ReduceOpLowering_stream)
  have p: "\<forall>t \<in> set ?pre. \<not> snd t" by simp
  have n: "length ?pre < 5" by simp
  have c: "length [(), (), (), (), ()] = length (?pre @ (0, True) # [])" by simp
  from reduce_emits_once [OF l p n c, of "(+)" "[(), (), (), ()]" "[()]"] l
  show ?thesis by simp
qed

end
